theory Spec2Isabelle
  imports Complex_Main
begin

section \<open>DBSCAN: a shallow embedding of dbscan.py\<close>

text \<open>
  Python integers are modelled as \<open>int\<close>. Distances and \<open>eps\<close> are modelled as \<open>real\<close>:
  their rounding, NaN and infinities are outside the model. The index arithmetic of
  \<open>square_to_condensed\<close> is given twice, in exact arithmetic and in IEEE doubles, with the
  range in which the two agree. Every exception the code can raise is a value of
  \<open>error\<close>; a function that can raise returns \<open>error + 'a\<close> with \<open>Inl\<close> for the
  exception.
\<close>

datatype error = AssertionError | IndexError | TypeError | OverflowError

subsection \<open>The numpy and scipy primitives the code calls\<close>

text \<open>
  An array that is used as an index. \<open>np.array\<close> of a non-empty list of Python ints
  has an integer dtype; \<open>np.array([])\<close> has numpy's default dtype, float64.
\<close>

datatype index_array = Int_array "int list" | Float_array "real list"

definition np_array :: "int list \<Rightarrow> index_array" where
  "np_array xs = (if xs = [] then Float_array [] else Int_array xs)"

text \<open>The integer entries of an index array (a float array has none).\<close>

fun tolist :: "index_array \<Rightarrow> int list" where
  "tolist (Int_array xs) = xs"
| "tolist (Float_array xs) = []"

text \<open>Conversion of a float to an index type rounds towards zero.\<close>

definition trunc :: "real \<Rightarrow> int" where
  "trunc x = (if x < 0 then \<lceil>x\<rceil> else \<lfloor>x\<rfloor>)"

text \<open>
  \<open>a.take(indices)\<close> in the default mode \<open>raise\<close>: an index \<open>k\<close> with \<open>-len(a) \<le> k < 0\<close>
  counts from the end, any index outside \<open>-len(a) \<le> k < len(a)\<close> raises IndexError. The
  length of a list is not bounded here: an index outside the 64-bit range, for which
  numpy raises OverflowError instead, also counts as IndexError.
\<close>

definition in_bounds :: "nat \<Rightarrow> int \<Rightarrow> bool" where
  "in_bounds m k = (- int m \<le> k \<and> k < int m)"

definition wrap_index :: "nat \<Rightarrow> int \<Rightarrow> nat" where
  "wrap_index m k = nat (if k < 0 then k + int m else k)"

definition take_ints :: "'a list \<Rightarrow> int list \<Rightarrow> error + 'a list" where
  "take_ints a ks =
     (if list_all (in_bounds (length a)) ks
      then Inr (map (\<lambda>k. a ! wrap_index (length a) k) ks)
      else Inl IndexError)"

text \<open>
  \<open>ndarray.take\<close> called with a Python list of floats: the list is converted to an
  index array element by element. The tests of \<open>get_distances_from_other_points\<close> in
  dbscan_test.py read distances through this conversion.
\<close>

definition ndarray_take :: "'a list \<Rightarrow> real list \<Rightarrow> error + 'a list" where
  "ndarray_take a indices = take_ints a (map trunc indices)"

text \<open>
  \<open>data.take(indices, axis=0)\<close> called with an array: an array of integer dtype selects
  rows, an array of float dtype cannot be cast safely to an index type and raises
  TypeError.
\<close>

fun take_axis0 :: "'a list \<Rightarrow> index_array \<Rightarrow> error + 'a list" where
  "take_axis0 a (Int_array ks) = take_ints a ks"
| "take_axis0 a (Float_array ks) = Inl TypeError"

text \<open>
  \<open>scipy.spatial.distance.pdist\<close> with its default Euclidean metric: the distances of
  all pairs \<open>(a, b)\<close> with \<open>a < b\<close>, row after row. The input is a two-dimensional array,
  so all rows have the same length.
\<close>

definition euclidean :: "real list \<Rightarrow> real list \<Rightarrow> real" where
  "euclidean u v = sqrt (\<Sum>(x, y)\<leftarrow>zip u v. (x - y)\<^sup>2)"

definition condensed :: "(nat \<Rightarrow> nat \<Rightarrow> 'a) \<Rightarrow> nat \<Rightarrow> 'a list" where
  "condensed f n = concat (map (\<lambda>a. map (f a) [Suc a..<n]) [0..<n])"

definition pdist :: "real list list \<Rightarrow> real list" where
  "pdist X = condensed (\<lambda>a b. euclidean (X ! a) (X ! b)) (length X)"

text \<open>\<open>np.where(distances < eps, 1, 0)\<close> and \<open>np.count_nonzero\<close>.\<close>

definition np_where_less :: "real list \<Rightarrow> real \<Rightarrow> int list" where
  "np_where_less distances e = map (\<lambda>d. if d < e then 1 else 0) distances"

definition count_nonzero :: "int list \<Rightarrow> int" where
  "count_nonzero xs = int (length (filter (\<lambda>x. x \<noteq> 0) xs))"

text \<open>\<open>range(a, b)\<close> of Python.\<close>

definition py_range :: "int \<Rightarrow> int \<Rightarrow> int list" where
  "py_range a b = [a..b - 1]"

subsection \<open>square_to_condensed\<close>

text \<open>
  The assertion fails on the diagonal. The larger index becomes \<open>i\<close>; the result is a
  float, because \<open>/\<close> is true division. \<open>square_to_condensed\<close> gives the value of the
  expression in exact arithmetic; \<open>square_to_condensed_float\<close> below evaluates it in
  doubles. The two agree for every matrix dimension \<open>n \<le> 94906266\<close> (lemma
  \<open>square_to_condensed_float_agrees\<close>), that is for every condensed matrix of up to
  \<open>4503599615578245\<close> entries.
\<close>

definition square_to_condensed :: "int \<Rightarrow> int \<Rightarrow> int \<Rightarrow> error + real" where
  "square_to_condensed i j n =
     (if i = j then Inl AssertionError
      else let (i', j') = (if i < j then (j, i) else (i, j))
           in Inr (of_int (n * j') - of_int (j' * (j' + 1)) / 2 + of_int i' - 1 - of_int j'))"

subsection \<open>square_to_condensed in IEEE doubles\<close>

text \<open>
  The same function with the arithmetic of Python floats (IEEE binary64, round to nearest,
  ties to even). All operands are Python ints or integer-valued doubles, so a finite double
  is given by its integer value.
  \<^item> \<open>bit_length\<close> is \<open>int.bit_length\<close>; \<open>round_mag\<close> rounds a magnitude to 53 significant
    bits.
  \<^item> \<open>int_to_float\<close> is the conversion of an int operand of a mixed operation; it raises
    OverflowError when the rounded value is not below \<open>2^1024\<close>.
  \<^item> \<open>true_div_2\<close> is \<open>b / 2\<close> for an int \<open>b\<close>: the correctly rounded quotient, with the same
    OverflowError. Its argument \<open>j * (j + 1)\<close> is even, so the quotient is the integer
    \<open>b div 2\<close>.
  \<^item> \<open>float_add\<close> and \<open>float_sub\<close> round the exact result and overflow to an infinity.
\<close>

datatype pyfloat = Finite int | PosInf | NegInf | NaN

fun bit_length :: "nat \<Rightarrow> nat" where
  "bit_length m = (if m = 0 then 0 else Suc (bit_length (m div 2)))"

definition round_mag :: "nat \<Rightarrow> nat" where
  "round_mag m =
     (if m < 2 ^ 53 then m
      else let ulp = 2 ^ (bit_length m - 53); q = m div ulp; r = m mod ulp
           in if 2 * r < ulp \<or> (2 * r = ulp \<and> even q) then q * ulp else (q + 1) * ulp)"

definition round_double :: "int \<Rightarrow> pyfloat" where
  "round_double k =
     (let m = round_mag (nat \<bar>k\<bar>)
      in if 2 ^ 1024 \<le> m then (if k < 0 then NegInf else PosInf)
         else Finite (sgn k * int m))"

definition int_to_float :: "int \<Rightarrow> error + pyfloat" where
  "int_to_float k =
     (let m = round_mag (nat \<bar>k\<bar>)
      in if 2 ^ 1024 \<le> m then Inl OverflowError else Inr (Finite (sgn k * int m)))"

definition true_div_2 :: "int \<Rightarrow> error + pyfloat" where
  "true_div_2 b = int_to_float (b div 2)"

fun float_add :: "pyfloat \<Rightarrow> pyfloat \<Rightarrow> pyfloat" where
  "float_add (Finite a) (Finite b) = round_double (a + b)"
| "float_add NaN y = NaN"
| "float_add x NaN = NaN"
| "float_add PosInf NegInf = NaN"
| "float_add NegInf PosInf = NaN"
| "float_add PosInf y = PosInf"
| "float_add NegInf y = NegInf"
| "float_add x PosInf = PosInf"
| "float_add x NegInf = NegInf"

fun float_neg :: "pyfloat \<Rightarrow> pyfloat" where
  "float_neg (Finite a) = Finite (- a)"
| "float_neg PosInf = NegInf"
| "float_neg NegInf = PosInf"
| "float_neg NaN = NaN"

definition float_sub :: "pyfloat \<Rightarrow> pyfloat \<Rightarrow> pyfloat" where
  "float_sub x y = float_add x (float_neg y)"

definition square_to_condensed_float :: "int \<Rightarrow> int \<Rightarrow> int \<Rightarrow> error + pyfloat" where
  "square_to_condensed_float i j n =
     (if i = j then Inl AssertionError
      else let (i', j') = (if i < j then (j, i) else (i, j))
           in case true_div_2 (j' * (j' + 1)) of
                Inl e \<Rightarrow> Inl e
              | Inr c \<Rightarrow>
                  (case int_to_float (n * j') of
                     Inl e \<Rightarrow> Inl e
                   | Inr a \<Rightarrow>
                       (case int_to_float i' of
                          Inl e \<Rightarrow> Inl e
                        | Inr fi \<Rightarrow>
                            (case int_to_float j' of
                               Inl e \<Rightarrow> Inl e
                             | Inr fj \<Rightarrow>
                                 Inr (float_sub (float_sub (float_add (float_sub a c) fi)
                                        (Finite 1)) fj)))))"

declare bit_length.simps [simp del]

subsection \<open>get_distances_from_other_points\<close>

text \<open>A list comprehension whose body can raise stops at the first exception.\<close>

fun collect :: "(error + 'a) list \<Rightarrow> error + 'a list" where
  "collect [] = Inr []"
| "collect (Inl e # rs) = Inl e"
| "collect (Inr x # rs) = (case collect rs of Inl e \<Rightarrow> Inl e | Inr xs \<Rightarrow> Inr (x # xs))"

definition get_distances_from_other_points :: "int \<Rightarrow> int \<Rightarrow> real list \<Rightarrow> error + real list" where
  "get_distances_from_other_points i n distance_matrix =
     (let square_indices = zip (replicate (nat n) i) (py_range 0 i @ py_range (i + 1) n)
      in case collect (map (\<lambda>(a, b). square_to_condensed a b n) square_indices) of
           Inl e \<Rightarrow> Inl e
         | Inr condensed_indices \<Rightarrow> ndarray_take distance_matrix condensed_indices)"

subsection \<open>The class DBSCAN\<close>

text \<open>
  The fields \<open>core_sample_indices_attr\<close>, \<open>components_attr\<close> and \<open>labels_attr\<close> are the
  attributes \<open>core_sample_indices_\<close>, \<open>components_\<close> and \<open>labels_\<close>; \<open>None\<close> is Python's
  \<open>None\<close>.
\<close>

record dbscan =
  eps :: real
  min_samples :: int
  core_sample_indices_attr :: "index_array option"
  components_attr :: "real list list option"
  labels_attr :: "int list option"

text \<open>The constructor stores its arguments; it has no check and no raise.\<close>

definition init :: "real \<Rightarrow> int \<Rightarrow> error + dbscan" where
  "init e m = Inr \<lparr>eps = e, min_samples = m, core_sample_indices_attr = None,
                   components_attr = None, labels_attr = None\<rparr>"

text \<open>
  The loop of \<open>_get_core_sample_indices\<close> over \<open>range(n)\<close>, with the list
  \<open>core_sample_indices\<close> as accumulator.
\<close>

definition num_less_than_eps :: "dbscan \<Rightarrow> real list \<Rightarrow> int" where
  "num_less_than_eps self distances =
     (let less_than_eps = np_where_less distances (eps self)
      in count_nonzero less_than_eps + 1)"

fun core_loop :: "dbscan \<Rightarrow> int \<Rightarrow> real list \<Rightarrow> int list \<Rightarrow> int list \<Rightarrow> error + int list" where
  "core_loop self n distance_matrix [] core_sample_indices = Inr core_sample_indices"
| "core_loop self n distance_matrix (i # is) core_sample_indices =
     (case get_distances_from_other_points i n distance_matrix of
        Inl e \<Rightarrow> Inl e
      | Inr distances \<Rightarrow>
          core_loop self n distance_matrix is
            (if num_less_than_eps self distances \<ge> min_samples self
             then core_sample_indices @ [i] else core_sample_indices))"

definition get_core_sample_indices :: "dbscan \<Rightarrow> int \<Rightarrow> real list \<Rightarrow> error + index_array" where
  "get_core_sample_indices self n distance_matrix =
     (case core_loop self n distance_matrix (py_range 0 n) [] of
        Inl e \<Rightarrow> Inl e
      | Inr core_sample_indices \<Rightarrow> Inr (np_array core_sample_indices))"

text \<open>
  \<open>fit\<close> assigns \<open>core_sample_indices_\<close> and \<open>components_\<close> and returns \<open>self\<close>; it has no
  assignment to \<open>labels_\<close>.
\<close>

definition fit :: "dbscan \<Rightarrow> real list list \<Rightarrow> error + dbscan" where
  "fit self data =
     (let distance_matrix = pdist data;
          n = int (length data)
      in case get_core_sample_indices self n distance_matrix of
           Inl e \<Rightarrow> Inl e
         | Inr csi \<Rightarrow>
             (case take_axis0 data csi of
                Inl e \<Rightarrow> Inl e
              | Inr comps \<Rightarrow>
                  Inr (self\<lparr>core_sample_indices_attr := Some csi, components_attr := Some comps\<rparr>)))"

subsection \<open>Notions used in the statements and proofs\<close>

text \<open>
  Used by the proofs only: the offset formula over \<open>nat\<close> for \<open>a < b < n\<close>, the offset at
  which row \<open>m\<close> starts, and the pairs in the order in which \<open>condensed\<close> stores them.
\<close>

definition offset :: "nat \<Rightarrow> nat \<Rightarrow> nat \<Rightarrow> nat" where
  "offset n a b = n * a - a * (a + 1) div 2 + (b - a - 1)"

definition row_start :: "nat \<Rightarrow> nat \<Rightarrow> nat" where
  "row_start n m = n * m - m * (m + 1) div 2"

definition pairs :: "nat \<Rightarrow> (nat \<times> nat) list" where
  "pairs n = concat (map (\<lambda>a. map (Pair a) [Suc a..<n]) [0..<n])"

text \<open>
  The other points of \<open>i\<close> in the order of \<open>get_distances_from_other_points\<close>, the
  distance stored for two points in either order, the condition of the loop of
  \<open>_get_core_sample_indices\<close> as a count over points, the Euclidean distance between two
  rows of the input, and the core points of an input.
\<close>

definition others :: "nat \<Rightarrow> nat \<Rightarrow> nat list" where
  "others i n = [0..<i] @ [Suc i..<n]"

definition stored :: "(nat \<Rightarrow> nat \<Rightarrow> 'a) \<Rightarrow> nat \<Rightarrow> nat \<Rightarrow> 'a" where
  "stored f i k = f (min i k) (max i k)"

definition is_core :: "dbscan \<Rightarrow> (nat \<Rightarrow> nat \<Rightarrow> real) \<Rightarrow> nat \<Rightarrow> nat \<Rightarrow> bool" where
  "is_core self f n i =
     (min_samples self \<le> int (card {k. k < n \<and> k \<noteq> i \<and> stored f i k < eps self}) + 1)"

definition metric :: "real list list \<Rightarrow> nat \<Rightarrow> nat \<Rightarrow> real" where
  "metric X a b = euclidean (X ! a) (X ! b)"

definition core_points :: "dbscan \<Rightarrow> real list list \<Rightarrow> nat list" where
  "core_points self X = filter (is_core self (metric X) (length X)) [0..<length X]"

text \<open>The fixture \<open>get_two_clusters\<close> of dbscan_test.py.\<close>

definition get_two_clusters :: "real list list" where
  "get_two_clusters = [[1, 3], [2, 2], [3, 1], [6, 8], [7, 7], [8, 6], [1, 8]]"

section \<open>The offset formula enumerates the condensed layout\<close>

lemma triangle_Suc: "Suc m * (Suc m + 1) div 2 = m * (m + 1) div 2 + Suc m"
proof -
  have "Suc m * (Suc m + 1) = m * (m + 1) + 2 * Suc m" by simp
  then show ?thesis by (metis div_mult_self4 add.commute zero_neq_numeral)
qed

lemma triangle_le: "m \<le> n \<Longrightarrow> m * (m + 1) div 2 \<le> n * (m::nat)"
proof (induction m)
  case 0
  then show ?case by simp
next
  case (Suc m)
  then have "m * (m + 1) div 2 \<le> n * m" and "Suc m \<le> n" by simp_all
  then show ?case unfolding triangle_Suc by simp
qed

lemma row_start_Suc: "m < n \<Longrightarrow> row_start n (Suc m) = row_start n m + (n - Suc m)"
  using triangle_le [of m n] unfolding row_start_def triangle_Suc by simp

lemma map_shift_upt: "map (\<lambda>b. c + (b - Suc a)) [Suc a..<n] = [c..<c + (n - Suc a)]"
  by (rule nth_equalityI) simp_all

lemma offsets_prefix:
  "m \<le> n \<Longrightarrow> concat (map (\<lambda>a. map (offset n a) [Suc a..<n]) [0..<m]) = [0..<row_start n m]"
proof (induction m)
  case 0
  then show ?case by (simp add: row_start_def)
next
  case (Suc m)
  then have lt: "m < n" by simp
  have "map (offset n m) [Suc m..<n] = map (\<lambda>b. row_start n m + (b - Suc m)) [Suc m..<n]"
    by (simp add: offset_def row_start_def)
  also have "\<dots> = [row_start n m..<row_start n m + (n - Suc m)]"
    by (rule map_shift_upt)
  finally have row: "map (offset n m) [Suc m..<n] = [row_start n m..<row_start n m + (n - Suc m)]" .
  have "[0..<row_start n (Suc m)] = [0..<row_start n m] @ [row_start n m..<row_start n m + (n - Suc m)]"
    unfolding row_start_Suc [OF lt] by (rule upt_add_eq_append) simp
  then show ?case using Suc.IH lt by (simp add: row)
qed

lemma condensed_pairs: "condensed f n = map (\<lambda>(a, b). f a b) (pairs n)"
  by (simp add: condensed_def pairs_def map_concat comp_def)

lemma offsets_pairs: "map (\<lambda>(a, b). offset n a b) (pairs n) = [0..<row_start n n]"
  using offsets_prefix [of n n] by (simp add: pairs_def map_concat comp_def)

lemma set_pairs: "set (pairs n) = {(a, b). a < b \<and> b < n}"
  by (fastforce simp: pairs_def)

lemma length_pairs: "length (pairs n) = row_start n n"
  using arg_cong [OF offsets_pairs, of length n] by simp

lemma row_start_total: "row_start n n = n * (n - 1) div 2"
proof (cases n)
  case 0
  then show ?thesis by (simp add: row_start_def)
next
  case (Suc k)
  have "Suc k * Suc k = k * (k + 1) div 2 + (k * (k + 1) div 2 + Suc k)"
  proof -
    have "even (k * (k + 1))" by simp
    then obtain t where t: "k * (k + 1) = 2 * t" by (rule evenE)
    have "Suc k * Suc k = k * (k + 1) + Suc k" by simp
    then show ?thesis unfolding t by simp
  qed
  then show ?thesis unfolding Suc row_start_def triangle_Suc by (simp add: mult.commute)
qed

lemma length_condensed: "length (condensed f n) = n * (n - 1) div 2"
  by (simp add: condensed_pairs length_pairs row_start_total)

text \<open>Every list of length \<open>n*(n-1)/2\<close> is the condensed matrix of its own entries.\<close>

lemma condensed_of_list:
  assumes "length dm = n * (n - 1) div 2"
  shows "condensed (\<lambda>a b. dm ! offset n a b) n = dm"
proof -
  have "condensed (\<lambda>a b. dm ! offset n a b) n =
        map ((!) dm) (map (\<lambda>(a, b). offset n a b) (pairs n))"
    by (simp add: condensed_pairs comp_def split_def)
  also have "\<dots> = map ((!) dm) [0..<length dm]"
    by (simp only: offsets_pairs row_start_total assms)
  finally show ?thesis by (simp only: map_nth)
qed

lemma pair_position:
  assumes "a < b" "b < n"
  shows "offset n a b < length (pairs n) \<and> pairs n ! offset n a b = (a, b)"
proof -
  from assms have "(a, b) \<in> set (pairs n)" by (simp add: set_pairs)
  then obtain t where t: "t < length (pairs n)" "pairs n ! t = (a, b)"
    by (auto simp: in_set_conv_nth)
  have "map (\<lambda>(a, b). offset n a b) (pairs n) ! t = [0..<row_start n n] ! t"
    by (simp only: offsets_pairs)
  with t have "offset n a b = t" by (simp add: length_pairs)
  with t show ?thesis by simp
qed

lemma nth_condensed:
  "a < b \<Longrightarrow> b < n \<Longrightarrow> condensed f n ! offset n a b = f a b"
  using pair_position [of a b n] by (simp add: condensed_pairs)

lemma offset_less:
  "a < b \<Longrightarrow> b < n \<Longrightarrow> offset n a b < n * (n - 1) div 2"
  using pair_position [of a b n] by (simp add: length_pairs row_start_total)

section \<open>square_to_condensed\<close>

lemma real_offset:
  assumes "a < b" "b < n"
  shows "real (offset n a b) = real (n * a) - real (a * (a + 1)) / 2 + real b - 1 - real a"
proof -
  have le: "a * (a + 1) div 2 \<le> n * a" using assms by (intro triangle_le) simp
  have "even (a * (a + 1))" by simp
  then have half: "real (a * (a + 1) div 2) = real (a * (a + 1)) / 2"
    by (simp only: real_of_nat_div of_nat_numeral)
  have "real (offset n a b) = real (n * a - a * (a + 1) div 2) + real (b - a - 1)"
    by (simp only: offset_def of_nat_add)
  also have "real (n * a - a * (a + 1) div 2) = real (n * a) - real (a * (a + 1)) / 2"
    using le by (simp only: of_nat_diff half)
  also have "real (b - a - 1) = real b - 1 - real a"
    using assms by (simp add: of_nat_diff)
  finally show ?thesis by simp
qed

lemma square_to_condensed_nat:
  assumes "a < b" "b < n"
  shows "square_to_condensed (int b) (int a) (int n) = Inr (real (offset n a b))"
    and "square_to_condensed (int a) (int b) (int n) = Inr (real (offset n a b))"
  using assms by (simp_all add: square_to_condensed_def real_offset algebra_simps)

lemma trunc_of_nat: "trunc (real k) = int k"
  by (simp add: trunc_def)

lemma ndarray_take_nats:
  assumes "\<And>k. k \<in> set ks \<Longrightarrow> k < length a"
  shows "ndarray_take a (map real ks) = Inr (map ((!) a) ks)"
proof -
  have "list_all (in_bounds (length a)) (map int ks)"
    using assms by (auto simp: list_all_iff in_bounds_def)
  then show ?thesis
    by (simp add: ndarray_take_def take_ints_def comp_def trunc_of_nat wrap_index_def)
qed

lemma square_to_condensed_commute: "square_to_condensed i j n = square_to_condensed j i n"
  by (simp add: square_to_condensed_def)

lemma square_to_condensed_int:
  assumes "0 \<le> j" "j < i" "i < n"
  shows "square_to_condensed i j n = Inr (real (offset (nat n) (nat j) (nat i)))"
  using assms square_to_condensed_nat(1) [of "nat j" "nat i" "nat n"] by simp

text \<open>
  C8: the condensed index does not depend on the order of the two point indices, so a
  lookup of \<open>(i, j)\<close> and a lookup of \<open>(j, i)\<close> read the same cell of the condensed
  distance matrix of \<open>n\<close> points, and the read succeeds.
\<close>

theorem square_to_condensed_symmetric:
  assumes "i \<noteq> j" "0 \<le> i" "i < n" "0 \<le> j" "j < n"
    and "int (length dm) = n * (n - 1) div 2"
  shows "\<exists>k. square_to_condensed i j n = Inr (real k) \<and>
             square_to_condensed j i n = Inr (real k) \<and>
             k < length dm \<and>
             ndarray_take dm [real k] = Inr [dm ! k]"
proof -
  define a where "a = nat (min i j)"
  define b where "b = nat (max i j)"
  define k where "k = offset (nat n) a b"
  have ab: "a < b" "b < nat n" using assms by (auto simp: a_def b_def)
  have hi_lo: "square_to_condensed (max i j) (min i j) n = Inr (real k)"
    unfolding k_def a_def b_def using assms by (intro square_to_condensed_int) auto
  have ij: "square_to_condensed i j n = Inr (real k)"
  proof (cases "i < j")
    case True
    with hi_lo have "square_to_condensed j i n = Inr (real k)" by (simp add: max_def min_def)
    then show ?thesis by (simp only: square_to_condensed_commute [of i j])
  next
    case False
    with assms(1) hi_lo show ?thesis by (simp add: max_def min_def)
  qed
  then have ji: "square_to_condensed j i n = Inr (real k)"
    by (simp only: square_to_condensed_commute [of j i])
  note ij ji
  moreover have "length dm = nat n * (nat n - 1) div 2"
  proof -
    have "int (nat n * (nat n - 1) div 2) = n * (n - 1) div 2"
      using assms by (simp add: zdiv_int of_nat_diff)
    with assms(6) show ?thesis by linarith
  qed
  then have "k < length dm" using offset_less [OF ab] by (simp add: k_def)
  moreover from this have "ndarray_take dm (map real [k]) = Inr (map ((!) dm) [k])"
    by (intro ndarray_take_nats) simp
  ultimately show ?thesis by auto
qed

theorem square_to_condensed_symmetric_witness:
  "(0::int) \<noteq> 2 \<and> (0::int) \<le> 0 \<and> (0::int) < 3 \<and> (0::int) \<le> 2 \<and> (2::int) < 3 \<and>
   int (length [10, 20, 30 :: real]) = 3 * (3 - 1) div 2 \<and>
   square_to_condensed 0 2 3 = Inr 1 \<and> square_to_condensed 2 0 3 = Inr 1 \<and>
   ndarray_take [10, 20, 30 :: real] [1] = Inr [20]"
  using square_to_condensed_symmetric [of 0 2 3 "[10, 20, 30 :: real]"]
  by (simp add: square_to_condensed_def ndarray_take_def take_ints_def trunc_def
      in_bounds_def wrap_index_def)


lemma int_offset:
  assumes "0 \<le> j" "j < i" "i < n"
  shows "int (offset (nat n) (nat j) (nat i)) = n * j - j * (j + 1) div 2 + (i - j - 1)"
proof -
  have le: "nat j * (nat j + 1) div 2 \<le> nat n * nat j" using assms by (intro triangle_le) simp
  have "int (offset (nat n) (nat j) (nat i)) =
        int (nat n * nat j) - int (nat j * (nat j + 1) div 2) + int (nat i - nat j - 1)"
    unfolding offset_def using le by (simp only: of_nat_add of_nat_diff)
  also have "int (nat j * (nat j + 1) div 2) = j * (j + 1) div 2"
    using assms by (simp add: zdiv_int algebra_simps)
  also have "int (nat i - nat j - 1) = i - j - 1" using assms by simp
  also have "int (nat n * nat j) = n * j" using assms by simp
  finally show ?thesis .
qed

section \<open>square_to_condensed in doubles\<close>


lemma round_mag_small: "m < 2 ^ 53 \<Longrightarrow> round_mag m = m"
  by (simp add: round_mag_def)

lemma small_no_overflow: "m < 2 ^ 53 \<Longrightarrow> \<not> (2::nat) ^ 1024 \<le> m"
proof -
  have "(2::nat) ^ 53 \<le> 2 ^ 1024" by (rule power_increasing) simp_all
  then show "m < 2 ^ 53 \<Longrightarrow> \<not> (2::nat) ^ 1024 \<le> m" by linarith
qed

lemma nat_abs_small: "\<bar>k\<bar> < 2 ^ 53 \<Longrightarrow> nat \<bar>k\<bar> < 2 ^ 53"
  by (simp add: nat_less_iff)

lemma int_to_float_exact:
  assumes "\<bar>k\<bar> < 2 ^ 53"
  shows "int_to_float k = Inr (Finite k)"
proof -
  have m: "nat \<bar>k\<bar> < 2 ^ 53" using assms by (rule nat_abs_small)
  have "sgn k * int (nat \<bar>k\<bar>) = k" by (simp add: mult_sgn_abs)
  then show ?thesis
    unfolding int_to_float_def Let_def round_mag_small [OF m]
    using small_no_overflow [OF m] by (simp only: if_False)
qed

lemma round_double_exact:
  assumes "\<bar>k\<bar> < 2 ^ 53"
  shows "round_double k = Finite k"
proof -
  have m: "nat \<bar>k\<bar> < 2 ^ 53" using assms by (rule nat_abs_small)
  have "sgn k * int (nat \<bar>k\<bar>) = k" by (simp add: mult_sgn_abs)
  then show ?thesis
    unfolding round_double_def Let_def round_mag_small [OF m]
    using small_no_overflow [OF m] by (simp only: if_False)
qed

lemma float_add_exact: "\<bar>a + b\<bar> < 2 ^ 53 \<Longrightarrow> float_add (Finite a) (Finite b) = Finite (a + b)"
  by (simp add: round_double_exact)

lemma float_sub_exact: "\<bar>a - b\<bar> < 2 ^ 53 \<Longrightarrow> float_sub (Finite a) (Finite b) = Finite (a - b)"
  by (simp add: float_sub_def round_double_exact)

lemma square_to_condensed_float_exact:
  assumes "0 \<le> j" "j < i" "i < n" "n \<le> 94906266"
  shows "square_to_condensed_float i j n = Inr (Finite (n * j - j * (j + 1) div 2 + (i - j - 1)))"
proof -
  define a where "a = n * j"
  define c where "c = j * (j + 1) div 2"
  have a0: "0 \<le> a" using assms by (simp add: a_def)
  have "n * j \<le> 94906266 * 94906264" using assms by (intro mult_mono) auto
  then have a1: "a \<le> 9007199136250224" by (simp add: a_def)
  have c0: "0 \<le> c" using assms by (simp add: c_def)
  have "j * (j + 1) \<le> j * n" using assms by (intro mult_left_mono) auto
  moreover have "0 \<le> j * (j + 1)" using assms by simp
  ultimately have "j * (j + 1) div 2 \<le> j * n" by linarith
  then have c1: "c \<le> a" by (simp add: a_def c_def mult.commute)
  have p53: "(2::int) ^ 53 = 9007199254740992" by simp
  have s1: "true_div_2 (j * (j + 1)) = Inr (Finite c)"
    unfolding true_div_2_def c_def [symmetric] using a1 c0 c1 by (intro int_to_float_exact) (simp add: p53)
  have s2: "int_to_float (n * j) = Inr (Finite a)"
    unfolding a_def [symmetric] using a0 a1 by (intro int_to_float_exact) (simp add: p53)
  have s3: "int_to_float i = Inr (Finite i)" using assms by (intro int_to_float_exact) (simp add: p53)
  have s4: "int_to_float j = Inr (Finite j)" using assms by (intro int_to_float_exact) (simp add: p53)
  have s5: "float_sub (Finite a) (Finite c) = Finite (a - c)"
    using a0 a1 c0 c1 by (intro float_sub_exact) (simp add: p53)
  have s6: "round_double (a - c + i) = Finite (a - c + i)"
    using a0 a1 c0 c1 assms by (intro round_double_exact) (simp add: p53)
  have s7: "float_sub (Finite (a - c + i)) (Finite 1) = Finite (a - c + i - 1)"
    using a0 a1 c0 c1 assms by (intro float_sub_exact) (simp add: p53)
  have s8: "float_sub (Finite (a - c + i - 1)) (Finite j) = Finite (a - c + i - 1 - j)"
    using a0 a1 c0 c1 assms by (intro float_sub_exact) (simp add: p53)
  have "square_to_condensed_float i j n = Inr (Finite (a - c + i - 1 - j))"
    using assms by (simp add: square_to_condensed_float_def s1 s2 s3 s4 s5 s6 s7 s8)
  then show ?thesis by (simp add: a_def c_def algebra_simps)
qed


text \<open>
  In the range \<open>n \<le> 94906266\<close> the doubles are exact: \<open>square_to_condensed_float\<close> returns
  the value that \<open>square_to_condensed\<close> gives in exact arithmetic.
\<close>

lemma square_to_condensed_float_ordered:
  assumes "0 \<le> j" "j < i" "i < n" "n \<le> 94906266"
  shows "square_to_condensed_float i j n = Inr (Finite (int (offset (nat n) (nat j) (nat i))))"
    and "square_to_condensed i j n = Inr (of_int (int (offset (nat n) (nat j) (nat i))))"
proof -
  show "square_to_condensed_float i j n = Inr (Finite (int (offset (nat n) (nat j) (nat i))))"
    using assms by (simp add: square_to_condensed_float_exact int_offset)
  show "square_to_condensed i j n = Inr (of_int (int (offset (nat n) (nat j) (nat i))))"
    using assms by (simp only: square_to_condensed_int of_int_of_nat_eq)
qed

lemma square_to_condensed_float_agrees:
  assumes "i \<noteq> j" "0 \<le> i" "i < n" "0 \<le> j" "j < n" "n \<le> 94906266"
  shows "\<exists>k. square_to_condensed_float i j n = Inr (Finite k) \<and>
             square_to_condensed i j n = Inr (of_int k)"
proof (cases "j < i")
  case True
  with assms show ?thesis using square_to_condensed_float_ordered [of j i n] by blast
next
  case False
  with assms have ij: "i < j" by simp
  have "square_to_condensed_float i j n = square_to_condensed_float j i n"
    using ij by (simp add: square_to_condensed_float_def)
  moreover have "square_to_condensed i j n = square_to_condensed j i n"
    by (rule square_to_condensed_commute)
  ultimately show ?thesis using assms ij square_to_condensed_float_ordered [of i j n] by auto
qed




section \<open>get_distances_from_other_points\<close>

lemma py_range_nat: "0 \<le> a \<Longrightarrow> py_range a b = map int [nat a..<nat b]"
  by (rule nth_equalityI) (auto simp: py_range_def)

lemma zip_replicate_short: "length ys \<le> m \<Longrightarrow> zip (replicate m x) ys = map (Pair x) ys"
proof (induction ys arbitrary: m)
  case Nil
  then show ?case by simp
next
  case (Cons y ys)
  then obtain m' where "m = Suc m'" by (cases m) auto
  with Cons show ?case by simp
qed

lemma collect_map_Inr:
  "(\<And>x. x \<in> set xs \<Longrightarrow> g x = Inr (h x)) \<Longrightarrow> collect (map g xs) = Inr (map h xs)"
  by (induction xs) simp_all

lemma get_distances_nat:
  assumes "i < n"
  shows "get_distances_from_other_points (int i) (int n) (condensed f n) =
         Inr (map (\<lambda>k. f (min i k) (max i k)) (others i n))"
proof -
  let ?ks = "others i n"
  have ranges: "py_range 0 (int i) @ py_range (int i + 1) (int n) = map int ?ks"
    by (simp add: py_range_nat others_def nat_add_distrib)
  have len: "length (map int ?ks) \<le> nat (int n)" using assms by (simp add: others_def)
  have zipped: "zip (replicate (nat (int n)) (int i)) (map int ?ks) = map (Pair (int i)) (map int ?ks)"
    using len by (rule zip_replicate_short)
  have idx: "(case (int i, int k) of (a, b) \<Rightarrow> square_to_condensed a b (int n)) =
             Inr (real (offset n (min i k) (max i k)))" if "k \<in> set ?ks" for k
  proof (cases "k < i")
    case True
    then show ?thesis using assms by (simp add: square_to_condensed_nat min_def max_def)
  next
    case False
    with that have "i < k" "k < n" by (auto simp: others_def)
    then show ?thesis by (simp add: square_to_condensed_nat min_def max_def)
  qed
  have coll: "collect (map (\<lambda>(a, b). square_to_condensed a b (int n)) (map (Pair (int i)) (map int ?ks)))
              = Inr (map real (map (\<lambda>k. offset n (min i k) (max i k)) ?ks))"
    unfolding map_map comp_def by (rule collect_map_Inr) (use idx in simp)
  have bound: "k' < length (condensed f n)"
    if "k' \<in> set (map (\<lambda>k. offset n (min i k) (max i k)) ?ks)" for k'
  proof -
    from that obtain k where k: "k \<in> set ?ks" "k' = offset n (min i k) (max i k)" by auto
    then have "min i k < max i k" "max i k < n" using assms by (auto simp: others_def)
    then show ?thesis unfolding k length_condensed by (rule offset_less)
  qed
  have vals: "map ((!) (condensed f n)) (map (\<lambda>k. offset n (min i k) (max i k)) ?ks) =
              map (\<lambda>k. f (min i k) (max i k)) ?ks"
  proof -
    have "condensed f n ! offset n (min i k) (max i k) = f (min i k) (max i k)"
      if "k \<in> set ?ks" for k
    proof -
      from that have "min i k < max i k" "max i k < n" using assms by (auto simp: others_def)
      then show ?thesis by (rule nth_condensed)
    qed
    then show ?thesis by simp
  qed
  show ?thesis
    unfolding get_distances_from_other_points_def Let_def ranges zipped coll
    by (simp only: sum.case ndarray_take_nats [OF bound] vals)
qed

lemma others_int:
  assumes "0 \<le> i"
  shows "[0..i - 1] @ [i + 1..n - 1] = map int (others (nat i) (nat n))"
  using assms py_range_nat [of 0 i] py_range_nat [of "i + 1" n]
  by (simp add: py_range_def others_def nat_add_distrib)

text \<open>
  C10: for \<open>n \<ge> 1\<close>, \<open>0 \<le> i < n\<close> and the condensed matrix of \<open>n\<close> points, in which
  \<open>f a b\<close> is the distance stored for the pair \<open>a < b\<close>, the function returns \<open>n - 1\<close>
  distances: those between \<open>i\<close> and the points \<open>0 .. i-1\<close>, then those between \<open>i\<close> and
  the points \<open>i+1 .. n-1\<close>, in ascending order of the other point.
\<close>

theorem get_distances_from_other_points_order:
  assumes "1 \<le> n" "0 \<le> i" "i < n"
  shows "\<exists>ds. get_distances_from_other_points i n (condensed f (nat n)) = Inr ds \<and>
              length ds = nat (n - 1) \<and>
              ds = map (\<lambda>k. f (nat (min i k)) (nat (max i k))) ([0..i - 1] @ [i + 1..n - 1])"
proof -
  have lt: "nat i < nat n" using assms by simp
  have "get_distances_from_other_points (int (nat i)) (int (nat n)) (condensed f (nat n)) =
        Inr (map (\<lambda>k. f (min (nat i) k) (max (nat i) k)) (others (nat i) (nat n)))"
    using lt by (rule get_distances_nat)
  moreover have "map (\<lambda>k. f (nat (min i k)) (nat (max i k))) ([0..i - 1] @ [i + 1..n - 1]) =
                 map (\<lambda>k. f (min (nat i) k) (max (nat i) k)) (others (nat i) (nat n))"
  proof -
    have "nat (min i (int k)) = min (nat i) k \<and> nat (max i (int k)) = max (nat i) k" for k
      using assms(2) by (auto simp: min_def max_def)
    then show ?thesis unfolding others_int [OF assms(2)] map_map comp_def by simp
  qed
  moreover have "length (others (nat i) (nat n)) = nat (n - 1)"
    using assms by (simp add: others_def)
  ultimately show ?thesis using assms by simp
qed

theorem get_distances_from_other_points_order_witness:
  "(1::int) \<le> 3 \<and> (0::int) \<le> 1 \<and> (1::int) < 3 \<and>
   condensed (\<lambda>a b. real (10 * a + b)) (nat 3) = [1, 2, 12] \<and>
   get_distances_from_other_points 1 3 [1, 2, 12] = Inr [1, 12]"
  using get_distances_from_other_points_order [of 3 1 "\<lambda>a b. real (10 * a + b)"]
  by (simp add: condensed_def upt_rec)

section \<open>Evaluation at concrete inputs\<close>

lemma sqrt_less_nonneg: "0 \<le> y \<Longrightarrow> sqrt x < y \<longleftrightarrow> x < y\<^sup>2"
  using real_sqrt_less_iff [of x "y\<^sup>2"] by simp

lemma sqrt_less_three_halves: "sqrt x * 2 < 3 \<longleftrightarrow> x * 4 < 9"
proof -
  have "sqrt x * 2 < 3 \<longleftrightarrow> sqrt x < 3 / 2" by auto
  also have "\<dots> \<longleftrightarrow> x < (3 / 2)\<^sup>2" by (rule sqrt_less_nonneg) simp
  also have "\<dots> \<longleftrightarrow> x * 4 < 9" by (auto simp: power2_eq_square)
  finally show ?thesis .
qed

lemmas eval_defs =
  get_distances_from_other_points_def py_range_def upto.simps
  square_to_condensed_def ndarray_take_def take_ints_def trunc_def
  in_bounds_def wrap_index_def np_where_less_def count_nonzero_def num_less_than_eps_def
  get_core_sample_indices_def np_array_def

section \<open>Core samples and the neighbour count\<close>

lemma set_others: "i < n \<Longrightarrow> set (others i n) = {k. k < n \<and> k \<noteq> i}"
  by (auto simp: others_def)

lemma distinct_others: "distinct (others i n)"
  by (auto simp: others_def)

lemma count_nonzero_where:
  "count_nonzero (np_where_less (map g ks) e) = int (length (filter (\<lambda>k. g k < e) ks))"
proof -
  have "filter (\<lambda>x. x \<noteq> 0) (map (\<lambda>k. if g k < e then 1 else (0::int)) ks) =
        map (\<lambda>k. 1) (filter (\<lambda>k. g k < e) ks)"
    by (induction ks) simp_all
  then show ?thesis by (simp add: count_nonzero_def np_where_less_def comp_def)
qed

lemma count_others:
  assumes "i < n"
  shows "count_nonzero (np_where_less (map (stored f i) (others i n)) e) =
         int (card {k. k < n \<and> k \<noteq> i \<and> stored f i k < e})"
proof -
  have "length (filter (\<lambda>k. stored f i k < e) (others i n)) =
        card ({k. stored f i k < e} \<inter> set (others i n))"
    using distinct_others by (rule distinct_length_filter)
  also have "{k. stored f i k < e} \<inter> set (others i n) = {k. k < n \<and> k \<noteq> i \<and> stored f i k < e}"
    using assms by (auto simp: set_others)
  finally show ?thesis by (simp add: count_nonzero_where)
qed

lemma get_distances_stored:
  "i < n \<Longrightarrow> get_distances_from_other_points (int i) (int n) (condensed f n) =
     Inr (map (stored f i) (others i n))"
  using get_distances_nat [of i n f] by (simp add: stored_def [abs_def])

lemma num_less_than_eps_core:
  "i < n \<Longrightarrow> (min_samples self \<le> num_less_than_eps self (map (stored f i) (others i n))) =
     is_core self f n i"
  by (simp add: num_less_than_eps_def is_core_def count_others)

lemma core_loop_condensed:
  assumes "\<And>i. i \<in> set is \<Longrightarrow> i < n"
  shows "core_loop self (int n) (condensed f n) (map int is) acc =
         Inr (acc @ map int (filter (is_core self f n) is))"
  using assms
proof (induction "is" arbitrary: acc)
  case Nil
  then show ?case by simp
next
  case (Cons i "is")
  then have i: "i < n" and rest: "\<And>k. k \<in> set is \<Longrightarrow> k < n" by simp_all
  show ?case
    using Cons.IH [OF rest]
    by (simp add: get_distances_stored [OF i] num_less_than_eps_core [OF i])
qed

lemma get_core_sample_indices_condensed:
  "get_core_sample_indices self (int n) (condensed f n) =
     Inr (np_array (map int (filter (is_core self f n) [0..<n])))"
proof -
  have "py_range 0 (int n) = map int [0..<n]" using py_range_nat [of 0 "int n"] by simp
  moreover have "core_loop self (int n) (condensed f n) (map int [0..<n]) [] =
                 Inr ([] @ map int (filter (is_core self f n) [0..<n]))"
    by (rule core_loop_condensed) simp
  ultimately show ?thesis by (simp add: get_core_sample_indices_def)
qed

lemma tolist_np_array: "tolist (np_array xs) = xs"
  by (simp add: np_array_def)

lemma nat_min_max:
  "0 \<le> j \<Longrightarrow> nat (min (int i) j) = min i (nat j)"
  "0 \<le> j \<Longrightarrow> nat (max (int i) j) = max i (nat j)"
  "nat (min (int i) (int k)) = min i k"
  "nat (max (int i) (int k)) = max i k"
  by (auto simp: min_def max_def)

text \<open>
  C3: in the condensed matrix of \<open>n\<close> points, where \<open>f a b\<close> is the distance stored for
  the pair \<open>a < b\<close>, the distance between \<open>i\<close> and \<open>j\<close> is \<open>f (min i j) (max i j)\<close>. An index
  \<open>i\<close> is in the returned core sample indices if and only if it is a point index and the
  number of other points \<open>j \<noteq> i\<close> at distance \<open>< eps\<close>, plus 1 for the point itself, is
  \<open>\<ge> min_samples\<close>.
\<close>

theorem core_sample_indices_iff:
  "\<exists>csi. get_core_sample_indices self n (condensed f (nat n)) = Inr csi \<and>
     (\<forall>i. i \<in> set (tolist csi) \<longleftrightarrow>
        0 \<le> i \<and> i < n \<and>
        min_samples self \<le>
          int (card {j. 0 \<le> j \<and> j < n \<and> j \<noteq> i \<and>
                       f (nat (min i j)) (nat (max i j)) < eps self}) + 1)"
proof (cases "0 \<le> n")
  case False
  then have "py_range 0 n = []" by (simp add: py_range_def)
  then have "get_core_sample_indices self n (condensed f (nat n)) = Inr (np_array [])"
    by (simp add: get_core_sample_indices_def)
  with False show ?thesis by (simp add: tolist_np_array)
next
  case True
  define m where "m = nat n"
  have n: "n = int m" using True by (simp add: m_def)
  have card_eq: "card {j. 0 \<le> j \<and> j < int m \<and> j \<noteq> int i \<and>
                      f (nat (min (int i) j)) (nat (max (int i) j)) < eps self} =
                 card {k. k < m \<and> k \<noteq> i \<and> stored f i k < eps self}" for i
  proof -
    have "{j. 0 \<le> j \<and> j < int m \<and> j \<noteq> int i \<and>
              f (nat (min (int i) j)) (nat (max (int i) j)) < eps self} =
          int ` {k. k < m \<and> k \<noteq> i \<and> stored f i k < eps self}" (is "?A = int ` ?B")
    proof (intro set_eqI iffI)
      fix j assume "j \<in> ?A"
      then have "nat j \<in> ?B" by (auto simp: stored_def nat_min_max)
      moreover from \<open>j \<in> ?A\<close> have "j = int (nat j)" by simp
      ultimately show "j \<in> int ` ?B" by (rule rev_image_eqI)
    next
      fix j assume "j \<in> int ` ?B"
      then show "j \<in> ?A" by (auto simp: stored_def nat_min_max)
    qed
    then show ?thesis by (simp add: card_image)
  qed
  have "get_core_sample_indices self n (condensed f (nat n)) =
        Inr (np_array (map int (filter (is_core self f m) [0..<m])))"
    unfolding n by (simp add: get_core_sample_indices_condensed)
  moreover have "i \<in> set (map int (filter (is_core self f m) [0..<m])) \<longleftrightarrow>
        0 \<le> i \<and> i < n \<and>
        min_samples self \<le>
          int (card {j. 0 \<le> j \<and> j < n \<and> j \<noteq> i \<and>
                       f (nat (min i j)) (nat (max i j)) < eps self}) + 1" for i
  proof (cases "0 \<le> i")
    case False
    then show ?thesis by auto
  next
    case True
    then obtain k where k: "i = int k" by (metis nonneg_int_cases)
    show ?thesis unfolding k n by (auto simp: is_core_def card_eq)
  qed
  ultimately show ?thesis by (simp add: tolist_np_array)
qed

lemma card_split_point:
  fixes m :: nat
  assumes "b < m" "b \<noteq> a"
  shows "card {k. k < m \<and> k \<noteq> a \<and> P k} =
         (if P b then 1 else 0) + card {k. k < m \<and> k \<noteq> a \<and> k \<noteq> b \<and> P k}"
proof -
  let ?B = "{k. k < m \<and> k \<noteq> a \<and> k \<noteq> b \<and> P k}"
  have fin: "finite ?B" by (rule finite_subset [of _ "{..<m}"]) auto
  show ?thesis
  proof (cases "P b")
    case True
    with assms have "{k. k < m \<and> k \<noteq> a \<and> P k} = insert b ?B" by auto
    moreover have "b \<notin> ?B" by simp
    ultimately show ?thesis using fin True by simp
  next
    case False
    then have "{k. k < m \<and> k \<noteq> a \<and> P k} = ?B" by auto
    with False show ?thesis by simp
  qed
qed

lemma card_int_points:
  "card {k. 0 \<le> k \<and> k < int m \<and> Q (nat k)} = card {k. k < m \<and> Q k}"
proof -
  have "{k. 0 \<le> k \<and> k < int m \<and> Q (nat k)} = int ` {k. k < m \<and> Q k}" (is "?A = int ` ?B")
  proof (intro set_eqI iffI)
    fix k assume "k \<in> ?A"
    then have "nat k \<in> ?B" by auto
    moreover from \<open>k \<in> ?A\<close> have "k = int (nat k)" by simp
    ultimately show "k \<in> int ` ?B" by (rule rev_image_eqI)
  next
    fix k assume "k \<in> int ` ?B"
    then show "k \<in> ?A" by auto
  qed
  then show ?thesis by (simp add: card_image)
qed

lemma num_less_than_eps_split:
  assumes "a < m" "b < m" "b \<noteq> a"
  shows "num_less_than_eps self (map (stored f a) (others a m)) =
         1 + (if stored f a b < eps self then 1 else 0) +
         int (card {k. k < m \<and> k \<noteq> a \<and> k \<noteq> b \<and> stored f a k < eps self})"
  using card_split_point [OF assms(2,3), of "\<lambda>k. stored f a k < eps self"]
  by (simp add: num_less_than_eps_def count_others [OF assms(1)])

text \<open>
  C5: let \<open>ds\<close> be the distances of point \<open>i\<close> read from the condensed matrix of \<open>n\<close> points.
  In the count \<open>num_less_than_eps\<close> that \<open>_get_core_sample_indices\<close> makes from \<open>ds\<close>, another
  point \<open>j\<close> adds 1 exactly when its stored distance to \<open>i\<close> is \<open>< eps\<close>, and adds nothing
  when that distance equals \<open>eps\<close>; the rest of the count is 1 for \<open>i\<close> itself plus the
  points other than \<open>i\<close> and \<open>j\<close> at distance \<open>< eps\<close>. Point \<open>i\<close> is in the returned core
  sample indices exactly when this count is \<open>\<ge> min_samples\<close>.
\<close>

theorem neighbour_count_strict:
  assumes "0 \<le> i" "i < n" "0 \<le> j" "j < n" "j \<noteq> i"
  shows "\<exists>ds csi.
           get_distances_from_other_points i n (condensed f (nat n)) = Inr ds \<and>
           num_less_than_eps self ds =
             1 + (if f (nat (min i j)) (nat (max i j)) < eps self then 1 else 0) +
             int (card {k. 0 \<le> k \<and> k < n \<and> k \<noteq> i \<and> k \<noteq> j \<and>
                          f (nat (min i k)) (nat (max i k)) < eps self}) \<and>
           (f (nat (min i j)) (nat (max i j)) = eps self \<longrightarrow>
              num_less_than_eps self ds =
                1 + int (card {k. 0 \<le> k \<and> k < n \<and> k \<noteq> i \<and> k \<noteq> j \<and>
                             f (nat (min i k)) (nat (max i k)) < eps self})) \<and>
           get_core_sample_indices self n (condensed f (nat n)) = Inr csi \<and>
           (i \<in> set (tolist csi) \<longleftrightarrow> min_samples self \<le> num_less_than_eps self ds)"
proof -
  define a where "a = nat i"
  define b where "b = nat j"
  define m where "m = nat n"
  have conv: "i = int a" "j = int b" "n = int m" using assms by (simp_all add: a_def b_def m_def)
  have ab: "a < m" "b < m" "b \<noteq> a" using assms by (auto simp: a_def b_def m_def)
  let ?ds = "map (stored f a) (others a m)"
  let ?csi = "np_array (map int (filter (is_core self f m) [0..<m]))"
  have ds: "get_distances_from_other_points i n (condensed f (nat n)) = Inr ?ds"
    unfolding conv using ab(1) by (simp add: get_distances_stored)
  have csi: "get_core_sample_indices self n (condensed f (nat n)) = Inr ?csi"
    unfolding conv by (simp add: get_core_sample_indices_condensed)
  have st: "f (nat (min i k)) (nat (max i k)) = stored f a (nat k)" if "0 \<le> k" for k
    using that unfolding conv by (simp add: stored_def nat_min_max)
  have stj: "f (nat (min i j)) (nat (max i j)) = stored f a b"
    unfolding conv by (simp add: stored_def nat_min_max)
  have "{k. 0 \<le> k \<and> k < n \<and> k \<noteq> i \<and> k \<noteq> j \<and> f (nat (min i k)) (nat (max i k)) < eps self} =
        {k. 0 \<le> k \<and> k < int m \<and> (nat k \<noteq> a \<and> nat k \<noteq> b \<and> stored f a (nat k) < eps self)}"
    using st unfolding conv by auto
  then have card_eq:
    "card {k. 0 \<le> k \<and> k < n \<and> k \<noteq> i \<and> k \<noteq> j \<and> f (nat (min i k)) (nat (max i k)) < eps self} =
     card {k. k < m \<and> k \<noteq> a \<and> k \<noteq> b \<and> stored f a k < eps self}"
    using card_int_points [of m "\<lambda>k. k \<noteq> a \<and> k \<noteq> b \<and> stored f a k < eps self"]
    by (simp only:)
  have count: "num_less_than_eps self ?ds =
      1 + (if f (nat (min i j)) (nat (max i j)) < eps self then 1 else 0) +
      int (card {k. 0 \<le> k \<and> k < n \<and> k \<noteq> i \<and> k \<noteq> j \<and>
                   f (nat (min i k)) (nat (max i k)) < eps self})"
    unfolding card_eq stj by (rule num_less_than_eps_split [OF ab])
  have mem: "i \<in> set (tolist ?csi) \<longleftrightarrow> min_samples self \<le> num_less_than_eps self ?ds"
    unfolding conv using ab(1) by (auto simp: tolist_np_array num_less_than_eps_core)
  show ?thesis using ds csi count mem by auto
qed

theorem neighbour_count_strict_witness:
  "(0::int) \<le> 0 \<and> (0::int) < 4 \<and> (0::int) \<le> 1 \<and> (1::int) < 4 \<and> (1::int) \<noteq> 0 \<and>
   condensed (\<lambda>a b. if a = 0 \<and> b = 1 then 1 else if a = 2 \<and> b = 3 then 1/2 else (5::real))
     (nat 4) = [1, 5, 5, 5, 5, 1/2] \<and>
   get_distances_from_other_points 0 4 [1, 5, 5, 5, 5, 1/2] = Inr [1, 5, 5] \<and>
   num_less_than_eps \<lparr>eps = 1, min_samples = 2, core_sample_indices_attr = None,
       components_attr = None, labels_attr = None\<rparr> [1, 5, 5] = 1 \<and>
   get_core_sample_indices \<lparr>eps = 1, min_samples = 2, core_sample_indices_attr = None,
       components_attr = None, labels_attr = None\<rparr> 4 [1, 5, 5, 5, 5, 1/2] =
     Inr (Int_array [2, 3])"
proof -
  have c: "condensed (\<lambda>a b. if a = 0 \<and> b = 1 then 1 else if a = 2 \<and> b = 3 then 1/2 else (5::real))
             (nat 4) = [1, 5, 5, 5, 5, 1/2]"
    by (simp add: condensed_def upt_rec)
  have d: "get_distances_from_other_points 0 4 [1, 5, 5, 5, 5, 1/2] = Inr [1, 5, 5]"
    by (simp add: eval_defs eval_nat_numeral)
  have g: "get_core_sample_indices \<lparr>eps = 1, min_samples = 2, core_sample_indices_attr = None,
       components_attr = None, labels_attr = None\<rparr> 4 [1, 5, 5, 5, 5, 1/2] =
     Inr (Int_array [2, 3])"
    by (simp add: eval_defs eval_nat_numeral)
  have k: "num_less_than_eps \<lparr>eps = 1, min_samples = 2, core_sample_indices_attr = None,
       components_attr = None, labels_attr = None\<rparr> [1, 5, 5] = 1"
    by (simp add: eval_defs)
  show ?thesis
    using neighbour_count_strict [of 0 4 1
        "\<lambda>a b. if a = 0 \<and> b = 1 then 1 else if a = 2 \<and> b = 3 then 1/2 else (5::real)"
        "\<lparr>eps = 1, min_samples = 2, core_sample_indices_attr = None,
          components_attr = None, labels_attr = None\<rparr>"] c d g k
    by simp
qed

section \<open>The constructor\<close>

text \<open>
  C6 (amended): construction has no validation. For every \<open>eps\<close> and \<open>min_samples\<close> it
  succeeds, stores both values and leaves the three result attributes unset.
\<close>

theorem init_always_succeeds:
  "init e m = Inr \<lparr>eps = e, min_samples = m, core_sample_indices_attr = None,
                   components_attr = None, labels_attr = None\<rparr>"
  by (simp add: init_def)

text \<open>
  C6 as stated fails: with \<open>eps = 0\<close> and \<open>min_samples = 0\<close> the constructor returns an
  object and raises nothing.
\<close>

theorem init_invalid_parameters_accepted:
  "init 0 0 = Inr \<lparr>eps = 0, min_samples = 0, core_sample_indices_attr = None,
                   components_attr = None, labels_attr = None\<rparr> \<and> \<not> isl (init 0 0)"
  by (simp add: init_def)

section \<open>fit\<close>

lemma take_ints_nats:
  assumes "\<And>k. k \<in> set ks \<Longrightarrow> k < length a"
  shows "take_ints a (map int ks) = Inr (map ((!) a) ks)"
proof -
  have "list_all (in_bounds (length a)) (map int ks)"
    using assms by (auto simp: list_all_iff in_bounds_def)
  then show ?thesis by (simp add: take_ints_def comp_def wrap_index_def)
qed

lemma fit_core_points:
  "fit self X =
     (if core_points self X = [] then Inl TypeError
      else Inr (self\<lparr>core_sample_indices_attr := Some (Int_array (map int (core_points self X))),
                     components_attr := Some (map ((!) X) (core_points self X))\<rparr>))"
proof -
  have csi: "get_core_sample_indices self (int (length X)) (pdist X) =
             Inr (np_array (map int (core_points self X)))"
    by (simp add: pdist_def core_points_def metric_def [abs_def] get_core_sample_indices_condensed)
  have "take_ints X (map int (core_points self X)) = Inr (map ((!) X) (core_points self X))"
    by (rule take_ints_nats) (simp add: core_points_def)
  then show ?thesis by (simp add: fit_def csi np_array_def)
qed

text \<open>\<open>fit\<close> has no assignment to \<open>labels_\<close>: the attribute keeps its value.\<close>

lemma fit_labels_unchanged: "fit self X = Inr r \<Longrightarrow> labels_attr r = labels_attr self"
  by (auto simp: fit_core_points split: if_splits)

lemma sorted_core_points: "sorted_wrt (<) (map int (core_points self X))"
  by (simp add: core_points_def sorted_wrt_map sorted_wrt_filter)

text \<open>
  Whenever \<open>fit\<close> returns, \<open>core_sample_indices_\<close> is an integer array of point indices
  that is strictly ascending and has no duplicates, and \<open>components_\<close> holds one row per
  core sample index, in the same order, each equal to the input row at that index.
\<close>

lemma fit_core_samples_and_components:
  assumes "fit self X = Inr r"
  shows "\<exists>cs. core_sample_indices_attr r = Some (Int_array cs) \<and>
              sorted_wrt (<) cs \<and> distinct cs \<and>
              set cs \<subseteq> {0..<int (length X)} \<and>
              components_attr r = Some (map (\<lambda>i. X ! nat i) cs) \<and>
              (\<exists>comps. components_attr r = Some comps \<and> length comps = length cs)"
proof -
  let ?cs = "map int (core_points self X)"
  from assms have r: "r = self\<lparr>core_sample_indices_attr := Some (Int_array ?cs),
                              components_attr := Some (map ((!) X) (core_points self X))\<rparr>"
    by (simp add: fit_core_points split: if_splits)
  have "sorted_wrt (<) ?cs" by (rule sorted_core_points)
  moreover have "distinct ?cs" by (simp add: core_points_def distinct_map)
  moreover have "set ?cs \<subseteq> {0..<int (length X)}" by (auto simp: core_points_def)
  moreover have "map ((!) X) (core_points self X) = map (\<lambda>i. X ! nat i) ?cs"
    by (simp add: comp_def)
  ultimately show ?thesis unfolding r by simp
qed

lemma pdist_two_clusters:
  "pdist get_two_clusters =
     [sqrt 2, sqrt 8, sqrt 50, sqrt 52, sqrt 58, sqrt 25,
      sqrt 2, sqrt 52, sqrt 50, sqrt 52, sqrt 37,
      sqrt 58, sqrt 52, sqrt 50, sqrt 53,
      sqrt 2, sqrt 8, sqrt 25,
      sqrt 2, sqrt 37,
      sqrt 53]"
  by (simp add: pdist_def condensed_def euclidean_def get_two_clusters_def upt_rec)

lemma core_two_clusters:
  "get_core_sample_indices \<lparr>eps = 3/2, min_samples = 3, core_sample_indices_attr = None,
       components_attr = None, labels_attr = None\<rparr> 7 (pdist get_two_clusters) =
     Inr (Int_array [1, 4])"
  unfolding pdist_two_clusters
  by (simp add: eval_defs eval_nat_numeral sqrt_less_three_halves)

text \<open>
  C2: on the seven points of the test fixture, with \<open>eps = 1.5\<close> and \<open>min_samples = 3\<close>,
  \<open>fit\<close> returns with core sample indices \<open>[1, 4]\<close> and components \<open>[[2, 2], [7, 7]]\<close>,
  and with the labels attribute still \<open>None\<close>: no labels \<open>[0, 0, 0, 1, 1, 1, -1]\<close>.
\<close>

theorem fit_two_clusters:
  "init (3/2) 3 = Inr \<lparr>eps = 3/2, min_samples = 3, core_sample_indices_attr = None,
       components_attr = None, labels_attr = None\<rparr> \<and>
   fit \<lparr>eps = 3/2, min_samples = 3, core_sample_indices_attr = None,
       components_attr = None, labels_attr = None\<rparr> get_two_clusters =
     Inr \<lparr>eps = 3/2, min_samples = 3, core_sample_indices_attr = Some (Int_array [1, 4]),
          components_attr = Some [[2, 2], [7, 7]], labels_attr = None\<rparr>"
proof -
  have n: "int (length get_two_clusters) = 7" by (simp add: get_two_clusters_def)
  have rows: "take_ints get_two_clusters [1, 4] = Inr [[2, 2], [7, 7]]"
    by (simp add: get_two_clusters_def take_ints_def in_bounds_def wrap_index_def)
  show ?thesis by (simp add: init_def fit_def n core_two_clusters rows)
qed

text \<open>
  C1: on the two points \<open>[[0, 0], [1, 0]]\<close>, with \<open>eps = 2\<close> and \<open>min_samples = 2\<close>, \<open>fit\<close>
  returns with both points as core samples and with the labels attribute still \<open>None\<close>:
  there is no labels sequence of length 2.
\<close>

theorem fit_leaves_labels_unset:
  "fit \<lparr>eps = 2, min_samples = 2, core_sample_indices_attr = None,
       components_attr = None, labels_attr = None\<rparr> [[0, 0], [1, 0]] =
     Inr \<lparr>eps = 2, min_samples = 2, core_sample_indices_attr = Some (Int_array [0, 1]),
          components_attr = Some [[0, 0], [1, 0]], labels_attr = None\<rparr>"
  by (simp add: fit_def pdist_def condensed_def euclidean_def upt_rec eval_defs
      eval_nat_numeral)

lemma fit_raises_only_without_core_points:
  "fit self X = Inl e \<longleftrightarrow> e = TypeError \<and> core_points self X = []"
  by (auto simp: fit_core_points)

text \<open>
  C9: on the two points \<open>[[0], [5]]\<close> with \<open>eps = 1\<close> and \<open>min_samples = 2\<close> no point is a core
  point. \<open>_get_core_sample_indices\<close> returns \<open>np.array([])\<close>, a float64 array, \<open>data.take\<close>
  rejects it as an index, and \<open>fit\<close> raises TypeError: there is no \<open>components_\<close> with one
  row per core sample index (here an empty sequence).
\<close>

theorem fit_without_core_point_raises:
  "get_core_sample_indices \<lparr>eps = 1, min_samples = 2, core_sample_indices_attr = None,
       components_attr = None, labels_attr = None\<rparr> 2 (pdist [[0], [5]]) =
     Inr (Float_array []) \<and>
   fit \<lparr>eps = 1, min_samples = 2, core_sample_indices_attr = None,
       components_attr = None, labels_attr = None\<rparr> [[0], [5]] = Inl TypeError"
  by (simp add: fit_def pdist_def condensed_def euclidean_def upt_rec eval_defs
      eval_nat_numeral sqrt_less_nonneg)

lemma core_points_single:
  "core_points self [p] = (if min_samples self \<le> 1 then [0] else [])"
proof -
  have "{k. k < 1 \<and> k \<noteq> 0 \<and> stored (metric [p]) 0 k < eps self} = {}" by auto
  then have "is_core self (metric [p]) 1 0 \<longleftrightarrow> min_samples self \<le> 1"
    unfolding is_core_def by (simp only: card.empty) simp
  then show ?thesis by (simp add: core_points_def)
qed

text \<open>
  C7 (amended): a query of the condensed index with \<open>i = j\<close> fails, with the assertion
  of \<open>square_to_condensed\<close>. \<open>fit\<close> has no check on the number of points: on a single
  point with \<open>min_samples \<le> 1\<close> it returns, with core sample indices \<open>[0]\<close> and that point
  as the only component.
\<close>

theorem self_distance_fails_single_point_fits:
  "square_to_condensed i i n = Inl AssertionError \<and>
   (min_samples self \<le> 1 \<longrightarrow>
      fit self [p] = Inr (self\<lparr>core_sample_indices_attr := Some (Int_array [0]),
                                components_attr := Some [p]\<rparr>))"
  by (simp add: square_to_condensed_def fit_core_points core_points_single)

theorem self_distance_fails_single_point_fits_witness:
  "square_to_condensed 2 2 5 = Inl AssertionError \<and> (0::int) \<le> 1 \<and>
   fit \<lparr>eps = 1/2, min_samples = 0, core_sample_indices_attr = None,
       components_attr = None, labels_attr = None\<rparr> [[3, 4]] =
     Inr \<lparr>eps = 1/2, min_samples = 0, core_sample_indices_attr = Some (Int_array [0]),
          components_attr = Some [[3, 4]], labels_attr = None\<rparr>"
  using self_distance_fails_single_point_fits [of 2 5
      "\<lparr>eps = 1/2, min_samples = 0, core_sample_indices_attr = None,
        components_attr = None, labels_attr = None\<rparr>" "[3, 4]"]
  by simp

text \<open>
  C7 as stated fails: \<open>fit\<close> on the single point \<open>[[1, 2]]\<close> with \<open>eps = 1\<close> and
  \<open>min_samples = 1\<close> raises nothing and returns a result.
\<close>

theorem fit_single_point_returns:
  "fit \<lparr>eps = 1, min_samples = 1, core_sample_indices_attr = None,
       components_attr = None, labels_attr = None\<rparr> [[1, 2]] =
     Inr \<lparr>eps = 1, min_samples = 1, core_sample_indices_attr = Some (Int_array [0]),
          components_attr = Some [[1, 2]], labels_attr = None\<rparr> \<and>
   \<not> isl (fit \<lparr>eps = 1, min_samples = 1, core_sample_indices_attr = None,
       components_attr = None, labels_attr = None\<rparr> [[1, 2]])"
  by (simp add: fit_def pdist_def condensed_def euclidean_def upt_rec eval_defs
      eval_nat_numeral)

end
